theory Spec2Isabelle
  imports Main
begin

section \<open>Python strings\<close>

text \<open>
  A Python \<open>str\<close> is a sequence of Unicode code points. A code point is a natural
  number and a string is a list of them, so that \<open>len\<close> is \<open>length\<close> and an index is a
  position in the list. \<open>str\<close> turns an ASCII literal into such a string.
\<close>

type_synonym pystr = "nat list"

definition str :: "string \<Rightarrow> pystr" where
  "str s = map of_char s"

text \<open>The one-character string holding a backslash (code point 92), \<open>"\\"\<close> in the source.\<close>

definition backslash :: pystr where
  "backslash = [92]"

text \<open>
  The characters that \<open>str.strip()\<close>, \<open>str.lstrip()\<close> and \<open>str.rstrip()\<close> remove when
  called with no argument: the code points for which \<open>str.isspace\<close> holds.
\<close>

definition is_space :: "nat \<Rightarrow> bool" where
  "is_space c \<longleftrightarrow>
     (9 \<le> c \<and> c \<le> 13) \<or> (28 \<le> c \<and> c \<le> 32) \<or> c = 133 \<or> c = 160 \<or> c = 5760 \<or>
     (8192 \<le> c \<and> c \<le> 8202) \<or> c = 8232 \<or> c = 8233 \<or> c = 8239 \<or> c = 8287 \<or> c = 12288"

definition py_lstrip :: "pystr \<Rightarrow> pystr" where
  "py_lstrip s = dropWhile is_space s"

definition py_rstrip :: "pystr \<Rightarrow> pystr" where
  "py_rstrip s = rev (dropWhile is_space (rev s))"

definition py_strip :: "pystr \<Rightarrow> pystr" where
  "py_strip s = py_rstrip (py_lstrip s)"

text \<open>\<open>raw.rstrip("\n")\<close>: only trailing line feeds (code point 10) are removed.\<close>

definition py_rstrip_nl :: "pystr \<Rightarrow> pystr" where
  "py_rstrip_nl s = rev (dropWhile (\<lambda>c. c = 10) (rev s))"

definition startswith :: "pystr \<Rightarrow> pystr \<Rightarrow> bool" where
  "startswith s p \<longleftrightarrow> take (length p) s = p"

text \<open>\<open>s[a:b]\<close> and \<open>s[a:]\<close> for indices that are not negative; both clamp at \<open>len(s)\<close>.\<close>

definition py_slice :: "pystr \<Rightarrow> nat \<Rightarrow> nat \<Rightarrow> pystr" where
  "py_slice s a b = drop a (take b s)"

definition py_slice_from :: "pystr \<Rightarrow> nat \<Rightarrow> pystr" where
  "py_slice_from s a = drop a s"

text \<open>
  \<open>s.find(sub, start)\<close> is the lowest index \<open>i \<ge> start\<close> at which \<open>sub\<close> occurs in \<open>s\<close>,
  and \<open>-1\<close> when there is none. The result \<open>-1\<close> is \<open>None\<close> here, an index \<open>i\<close> is
  \<open>Some i\<close>. \<open>find_in sub t\<close> searches the suffix \<open>t\<close> from its first character.
\<close>

fun find_in :: "pystr \<Rightarrow> pystr \<Rightarrow> nat option" where
  "find_in sub [] = (if sub = [] then Some 0 else None)"
| "find_in sub (c # cs) =
     (if take (length sub) (c # cs) = sub then Some 0 else map_option Suc (find_in sub cs))"

definition py_find :: "pystr \<Rightarrow> pystr \<Rightarrow> nat \<Rightarrow> nat option" where
  "py_find s sub start =
     (if length s < start then None
      else map_option (\<lambda>i. start + i) (find_in sub (drop start s)))"

section \<open>The line classifier: \<open>look_for_code_in_line\<close>\<close>

text \<open>
  One pass through the body of the \<open>while\<close> loop either returns from the function or goes
  on to the next test of the loop condition with a new \<open>idx\<close> and \<open>in_comment\<close>.
\<close>

datatype iteration = Return "bool \<times> bool" | Continue nat bool

definition loop_body :: "pystr \<Rightarrow> nat \<Rightarrow> bool \<Rightarrow> iteration" where
  "loop_body line idx in_comment =
     (if in_comment then
        (case py_find line (str ''*/'') idx of
           None \<Rightarrow> Return (False, in_comment)
         | Some close_pos \<Rightarrow> Continue (close_pos + 2) False)
      else
        (case py_find line (str ''/*'') idx of
           Some open_pos \<Rightarrow>
             (if py_strip (py_slice line idx open_pos) \<noteq> [] then Return (True, in_comment)
              else Continue (open_pos + 2) True)
         | None \<Rightarrow>
             (let after = py_strip (py_slice_from line idx) in
              if after \<noteq> [] \<and> after \<notin> set [backslash, str ''//''] then Return (True, in_comment)
              else Continue (idx + 1) in_comment)))"

lemma find_in_bound: "find_in sub t = Some i \<Longrightarrow> i + length sub \<le> length t"
proof (induction t arbitrary: i)
  case Nil
  then show ?case by (simp split: if_splits)
next
  case (Cons c cs)
  show ?case
  proof (cases "take (length sub) (c # cs) = sub")
    case True
    then have "length (take (length sub) (c # cs)) = length sub"
      by simp
    then have "length sub \<le> length (c # cs)"
      by (simp del: take_Suc_Cons)
    with True Cons.prems show ?thesis by simp
  next
    case False
    with Cons.prems obtain j where "find_in sub cs = Some j" "i = Suc j"
      by auto
    with Cons.IH show ?thesis by simp
  qed
qed

lemma py_find_bound:
  assumes "py_find s sub start = Some p"
  shows "start \<le> p \<and> p + length sub \<le> length s"
proof -
  from assms have le: "start \<le> length s"
    by (simp add: py_find_def split: if_splits)
  with assms obtain i where i: "find_in sub (drop start s) = Some i" "p = start + i"
    by (auto simp: py_find_def)
  from find_in_bound [OF i(1)] le i(2) show ?thesis by simp
qed

lemma loop_body_advances:
  assumes "loop_body line idx in_comment = Continue idx' in_comment'"
  shows "idx < idx'"
  using assms
  by (auto simp: loop_body_def Let_def split: if_splits option.splits dest: py_find_bound)

lemma loop_body_in_line:
  assumes "loop_body line idx in_comment = Continue idx' in_comment'" and "idx < length line"
  shows "idx' \<le> length line"
  using assms
  by (auto simp: loop_body_def Let_def str_def split: if_splits option.splits dest: py_find_bound)

function while_loop :: "pystr \<Rightarrow> nat \<Rightarrow> bool \<Rightarrow> bool \<times> bool" where
  "while_loop line idx in_comment =
     (if idx < length line then
        (case loop_body line idx in_comment of
           Return r \<Rightarrow> r
         | Continue idx' in_comment' \<Rightarrow> while_loop line idx' in_comment')
      else (False, in_comment))"
  by pat_completeness auto
termination
proof (relation "measure (\<lambda>(line, idx, in_comment). length line - idx)")
  show "wf (measure (\<lambda>(line, idx, in_comment). length line - idx))"
    by simp
next
  fix line :: pystr and idx :: nat and in_comment :: bool and idx' :: nat and in_comment' :: bool
  assume "idx < length line" and "loop_body line idx in_comment = Continue idx' in_comment'"
  then show "((line, idx', in_comment'), (line, idx, in_comment))
      \<in> measure (\<lambda>(line, idx, in_comment). length line - idx)"
    using loop_body_advances [of line idx in_comment idx' in_comment'] by simp
qed

declare while_loop.simps [simp del]

definition look_for_code_in_line :: "pystr \<Rightarrow> bool \<times> bool" where
  "look_for_code_in_line line = while_loop line 0 True"

text \<open>
  The same loop with a bound on the number of passes through its body: \<open>None\<close> when the
  bound is used up before the loop is left.
\<close>

fun while_fuel :: "nat \<Rightarrow> pystr \<Rightarrow> nat \<Rightarrow> bool \<Rightarrow> (bool \<times> bool) option" where
  "while_fuel 0 line idx in_comment =
     (if idx < length line then None else Some (False, in_comment))"
| "while_fuel (Suc n) line idx in_comment =
     (if idx < length line then
        (case loop_body line idx in_comment of
           Return r \<Rightarrow> Some r
         | Continue idx' in_comment' \<Rightarrow> while_fuel n line idx' in_comment')
      else Some (False, in_comment))"

text \<open>
  Lines made of block comments: \<open>comments ps\<close> is, for each pair \<open>(ws, c)\<close> of \<open>ps\<close> in
  turn, the text \<open>ws\<close>, an opener, the text \<open>c\<close> and a closer.
\<close>

fun comments :: "(pystr \<times> pystr) list \<Rightarrow> pystr" where
  "comments [] = []"
| "comments ((ws, c) # ps) = ws @ str ''/*'' @ c @ str ''*/'' @ comments ps"

section \<open>The file counter: \<open>count_real_lines\<close>\<close>

text \<open>The two local variables of \<open>count_real_lines\<close>.\<close>

record counter =
  real :: int
  in_block_comment :: bool

text \<open>
  The body of \<open>for raw in f\<close> on one line that was read: every \<open>continue\<close> ends the
  branch with the variables as they are at that point.
\<close>

definition classify :: "pystr \<Rightarrow> counter \<Rightarrow> counter" where
  "classify stripped s =
     (case look_for_code_in_line stripped of
        (found, in_block_comment') \<Rightarrow>
          (if found then s\<lparr>in_block_comment := in_block_comment', real := real s + 1\<rparr>
           else s\<lparr>in_block_comment := in_block_comment'\<rparr>))"

definition for_body :: "pystr \<Rightarrow> counter \<Rightarrow> counter" where
  "for_body raw s =
     (let line = py_rstrip_nl raw in
      if py_strip line = [] then s
      else
        (let stripped = py_lstrip line in
         if startswith stripped (str ''//'') then s
         else if startswith stripped (str ''/*'') then classify stripped s
         else if in_block_comment s then classify stripped s
         else s\<lparr>real := real s + 1\<rparr>))"

text \<open>
  What the file does when it is read. \<open>open\<close> either raises or succeeds; after it has
  succeeded, each step of the iteration over the file gives a line or raises, and the
  iteration ends after the last outcome listed. \<open>OSError\<close> stands for the exceptions
  derived from \<open>Exception\<close> (the I/O errors are among them), \<open>KeyboardInterrupt\<close> for
  those derived from \<open>BaseException\<close> only, which \<open>except Exception\<close> lets through.
\<close>

datatype py_exception = OSError | KeyboardInterrupt

fun is_Exception :: "py_exception \<Rightarrow> bool" where
  "is_Exception OSError = True"
| "is_Exception KeyboardInterrupt = False"

datatype read = Line pystr | Raises py_exception

datatype file_path = OpenRaises py_exception | Opens "read list"

text \<open>
  The \<open>for\<close> loop gives back the variables as they are when it is left, and the exception
  that left it, if one did.
\<close>

fun for_loop :: "read list \<Rightarrow> counter \<Rightarrow> counter \<times> py_exception option" where
  "for_loop [] s = (s, None)"
| "for_loop (Line raw # rs) s = for_loop rs (for_body raw s)"
| "for_loop (Raises e # rs) s = (s, Some e)"

definition try_block :: "file_path \<Rightarrow> counter \<Rightarrow> counter \<times> py_exception option" where
  "try_block f s = (case f of OpenRaises e \<Rightarrow> (s, Some e) | Opens rs \<Rightarrow> for_loop rs s)"

definition count_real_lines :: "file_path \<Rightarrow> py_exception + int" where
  "count_real_lines f =
     (case try_block f \<lparr>real = 0, in_block_comment = False\<rparr> of
        (s, None) \<Rightarrow> Inr (real s)
      | (s, Some e) \<Rightarrow> (if is_Exception e then Inr (real s) else Inl e))"

subsection \<open>The files of the repository's tests\<close>

text \<open>
  \<open>main.c\<close> and \<open>utils.h\<close> as \<open>tests/test_count_lines.py\<close> writes them, read without an
  error: every line ends with a line feed but the last.
\<close>

definition text_lines :: "string list \<Rightarrow> read list" where
  "text_lines ls = map (\<lambda>l. Line (str l @ [10])) ls"

definition main_c :: file_path where
  \<open>main_c = Opens (text_lines
     ['''',
      ''            #include <stdio.h>'',
      ''            '',
      ''            int main() {'',
      ''                printf("Hello");  /* inline comment */'',
      ''                /* inline comment */ printf("Hello");'',
      ''                return 0; // trailing comment'',
      ''            }'',
      ''            /* Line comment */'',
      ''            /* block comment '',
      '''',
      ''            */'',
      ''            /* block comment '',
      '''',
      ''            */ printf("Hello");'',
      ''            /* block comment '',
      '''',
      ''            */ /* block comment '',
      '''',
      ''            */'',
      ''            // full line comment'']
     @ [Line (str ''               '' @ [9] @ str ''  '' @ [10]), Line (str ''        '')])\<close>

definition utils_h :: file_path where
  "utils_h = Opens (text_lines
     ['''',
      ''            #ifndef UTILS_H'',
      ''            #define UTILS_H'',
      ''            '',
      ''            void helper(); /* declaration */'',
      ''            '',
      ''            #endif'']
     @ [Line (str ''        '')])"

section \<open>Evaluation on concrete lines\<close>

lemmas classifier_eval =
  look_for_code_in_line_def while_loop.simps loop_body_def py_find_def str_def
  py_strip_def py_lstrip_def py_rstrip_def py_slice_def py_slice_from_def is_space_def
  backslash_def Let_def

lemmas counter_eval =
  count_real_lines_def try_block_def for_body_def classify_def py_rstrip_nl_def
  startswith_def

text \<open>The model gives the results that the repository's tests expect.\<close>

lemma test_printed_cases:
  "look_for_code_in_line (str ''*/ test'') = (True, False)"
  "look_for_code_in_line (str ''*/ '') = (False, False)"
  "look_for_code_in_line (str ''*/ test /* */'') = (True, False)"
  "look_for_code_in_line (str ''*/ /* */'') = (False, False)"
  "look_for_code_in_line (str ''*//* test *//* */ /* */'') = (False, False)"
  "look_for_code_in_line (str ''test */ /* '') = (False, True)"
  "look_for_code_in_line (str ''test */ '' @ backslash) = (False, False)"
  by (simp_all add: classifier_eval)

lemma test_inline_and_block_comments:
  "count_real_lines main_c = Inr 7"
  "count_real_lines utils_h = Inr 4"
  by (simp_all add: main_c_def utils_h_def text_lines_def counter_eval classifier_eval)

section \<open>The classifier\<close>

lemma loop_body_return:
  assumes "loop_body line idx in_comment = Return r"
  shows "r \<noteq> (True, True)"
  using assms
  by (auto simp: loop_body_def Let_def split: if_splits option.splits)

lemma while_loop_not_both: "while_loop line idx in_comment \<noteq> (True, True)"
proof (induction line idx in_comment rule: while_loop.induct)
  case (1 line idx in_comment)
  show ?case
  proof (cases "idx < length line")
    case False
    then show ?thesis by (simp add: while_loop.simps)
  next
    case True
    show ?thesis
    proof (cases "loop_body line idx in_comment")
      case (Return r)
      with True loop_body_return [OF Return] show ?thesis
        by (simp add: while_loop.simps)
    next
      case (Continue idx' in_comment')
      with True "1.IH" [OF True Continue] show ?thesis
        by (simp add: while_loop.simps)
    qed
  qed
qed

lemma while_fuel_enough:
  "length line - idx \<le> n \<Longrightarrow>
     while_fuel n line idx in_comment = Some (while_loop line idx in_comment)"
proof (induction n arbitrary: idx in_comment)
  case 0
  then show ?case by (simp add: while_loop.simps)
next
  case (Suc n)
  show ?case
  proof (cases "idx < length line")
    case False
    then show ?thesis by (simp add: while_loop.simps)
  next
    case True
    show ?thesis
    proof (cases "loop_body line idx in_comment")
      case (Return r)
      with True show ?thesis by (simp add: while_loop.simps)
    next
      case (Continue idx' in_comment')
      from loop_body_advances [OF Continue] Suc.prems have "length line - idx' \<le> n"
        by simp
      from Suc.IH [OF this] True Continue show ?thesis
        by (simp add: while_loop.simps)
    qed
  qed
qed

text \<open>
  C2 at the line \<open>*/ //\<close>: after the comment is closed the remainder \<open>//\<close> is passed
  over, but the scan moves on by one character only, reaches the remainder \<open>/\<close>, and
  reports code. A file of the two lines \<open>/* a\<close> and \<open>*/ //\<close>, which hold comments only,
  has the count 1.
\<close>

theorem lone_line_comment_reported_as_code:
  "look_for_code_in_line (str ''*/ //'') = (True, False)
   \<and> count_real_lines (Opens [Line (str ''/* a'' @ [10]), Line (str ''*/ //'' @ [10])]) = Inr 1"
  by (simp add: counter_eval classifier_eval)

text \<open>
  C9: a pass through the loop body that does not return moves \<open>idx\<close> strictly forward
  and not beyond the end of the line, and the loop is left after at most \<open>len(line)\<close>
  passes, with the result of \<open>look_for_code_in_line\<close>.
\<close>

theorem scan_position_increases_and_loop_ends:
  "(idx < length line \<and> loop_body line idx in_comment = Continue idx' in_comment'
      \<longrightarrow> idx < idx' \<and> idx' \<le> length line)
   \<and> while_fuel (length line) line 0 True = Some (look_for_code_in_line line)"
  using loop_body_advances [of line idx in_comment idx' in_comment']
    loop_body_in_line [of line idx in_comment idx' in_comment']
    while_fuel_enough [of line 0 "length line" True]
  by (simp add: look_for_code_in_line_def)

theorem scan_position_increases_and_loop_ends_witness:
  "(0::nat) < length (str ''*/ x'') \<and> loop_body (str ''*/ x'') 0 True = Continue 2 False
   \<and> (0::nat) < 2 \<and> 2 \<le> length (str ''*/ x'')
   \<and> while_fuel (length (str ''*/ x'')) (str ''*/ x'') 0 True
       = Some (look_for_code_in_line (str ''*/ x''))"
  using scan_position_increases_and_loop_ends [of 0 "str ''*/ x''" True 2 False]
  by (simp add: loop_body_def py_find_def str_def)

text \<open>
  C10: \<open>look_for_code_in_line\<close> never returns \<open>(True, True)\<close>; a line with code before an
  opener that is not closed is reported as code with the comment closed.
\<close>

theorem code_found_means_comment_closed:
  "look_for_code_in_line line \<noteq> (True, True)
   \<and> look_for_code_in_line (str ''*/ x /* open'') = (True, False)"
proof
  show "look_for_code_in_line line \<noteq> (True, True)"
    by (simp add: look_for_code_in_line_def while_loop_not_both)
  show "look_for_code_in_line (str ''*/ x /* open'') = (True, False)"
    by (simp add: classifier_eval)
qed

subsection \<open>Scanning depends on the rest of the line only\<close>

lemma all_dropWhile_iff: "(\<forall>c\<in>set (dropWhile P s). P c) \<longleftrightarrow> (\<forall>c\<in>set s. P c)"
  by (induction s) auto

lemma py_strip_empty_iff: "py_strip s = [] \<longleftrightarrow> (\<forall>c\<in>set s. is_space c)"
  by (simp add: py_strip_def py_rstrip_def py_lstrip_def all_dropWhile_iff)

lemma find_in_append_first:
  assumes "find_in [a, b] c = None" and "a \<noteq> b"
  shows "find_in [a, b] (c @ a # b # rest) = Some (length c)"
  using assms
proof (induction c)
  case Nil
  then show ?case by simp
next
  case (Cons x c)
  from Cons.prems have no: "take 2 (x # c) \<noteq> [a, b]" and rec: "find_in [a, b] c = None"
    by (auto split: if_splits)
  from no \<open>a \<noteq> b\<close> have "take 2 (x # c @ a # b # rest) \<noteq> [a, b]"
    by (cases c) (auto simp: numeral_2_eq_2)
  with Cons.IH [OF rec \<open>a \<noteq> b\<close>] show ?case
    by simp
qed

lemma find_in_absent:
  assumes "a \<notin> set c"
  shows "find_in [a, b] c = None"
  using assms
  by (induction c) (auto simp: numeral_2_eq_2 take_Suc_conv_app_nth dest: in_set_takeD)

lemma py_find_first:
  assumes "py_find c [a, b] 0 = None" and "a \<noteq> b"
  shows "py_find (c @ [a, b] @ rest) [a, b] 0 = Some (length c)"
  using assms find_in_append_first [of a b c rest]
  by (simp add: py_find_def)

lemma py_find_shift:
  "py_find (pre @ l) sub (length pre + i) = map_option (\<lambda>j. length pre + j) (py_find l sub i)"
  by (simp add: py_find_def option.map_comp comp_def add.assoc)

lemma py_slice_shift:
  "py_slice (pre @ l) (length pre + i) (length pre + j) = py_slice l i j"
  by (simp add: py_slice_def)

lemma py_slice_from_shift:
  "py_slice_from (pre @ l) (length pre + i) = py_slice_from l i"
  by (simp add: py_slice_from_def)

lemma loop_body_shift:
  "loop_body (pre @ l) (length pre + i) c =
     (case loop_body l i c of
        Return r \<Rightarrow> Return r
      | Continue j c' \<Rightarrow> Continue (length pre + j) c')"
  by (simp add: loop_body_def py_find_shift py_slice_shift py_slice_from_shift Let_def
      split: option.splits)

lemma while_loop_shift:
  "while_loop (pre @ l) (length pre + i) c = while_loop l i c"
proof (induction l i c rule: while_loop.induct)
  case (1 line idx in_comment)
  show ?case
  proof (cases "idx < length line")
    case False
    then show ?thesis by (simp add: while_loop.simps)
  next
    case True
    show ?thesis
    proof (cases "loop_body line idx in_comment")
      case (Return r)
      with True show ?thesis
        by (simp add: while_loop.simps [of "pre @ line"] while_loop.simps [of line idx]
            loop_body_shift)
    next
      case (Continue idx' in_comment')
      with True "1.IH" [OF True Continue] show ?thesis
        by (simp add: while_loop.simps [of "pre @ line" "length pre + idx"]
            while_loop.simps [of line idx] loop_body_shift)
    qed
  qed
qed

lemma while_loop_after:
  "while_loop (pre @ l) (length pre) c = while_loop l 0 c"
  using while_loop_shift [of pre l 0 c] by simp

lemma skip_to_close:
  assumes "py_find c (str ''*/'') 0 = None"
  shows "while_loop (c @ str ''*/'' @ rest) 0 True = while_loop rest 0 False"
proof -
  let ?line = "c @ str ''*/'' @ rest"
  from assms have "py_find ?line (str ''*/'') 0 = Some (length c)"
    using py_find_first [of c 42 47 rest] by (simp add: str_def)
  then have "loop_body ?line 0 True = Continue (length c + 2) False"
    by (simp add: loop_body_def)
  moreover have "0 < length ?line"
    by (simp add: str_def)
  ultimately have "while_loop ?line 0 True = while_loop ?line (length c + 2) False"
    by (simp add: while_loop.simps [of ?line 0])
  also have "\<dots> = while_loop rest 0 False"
    using while_loop_after [of "c @ str ''*/''" rest False] by (simp add: str_def)
  finally show ?thesis .
qed

lemma is_space_not_slash: "is_space x \<Longrightarrow> x \<noteq> 47"
  by (auto simp: is_space_def)

lemma skip_opener:
  assumes "\<forall>x\<in>set ws. is_space x"
  shows "while_loop (ws @ str ''/*'' @ rest) 0 False = while_loop rest 0 True"
proof -
  let ?line = "ws @ str ''/*'' @ rest"
  from assms have "47 \<notin> set ws"
    by (auto dest: is_space_not_slash)
  then have "py_find ws [47, 42] 0 = None"
    by (simp add: py_find_def find_in_absent)
  then have "py_find ?line (str ''/*'') 0 = Some (length ws)"
    using py_find_first [of ws 47 42 rest] by (simp add: str_def)
  moreover have "py_strip (py_slice ?line 0 (length ws)) = []"
    using assms by (simp add: py_slice_def py_strip_empty_iff)
  ultimately have "loop_body ?line 0 False = Continue (length ws + 2) True"
    by (simp add: loop_body_def)
  moreover have "0 < length ?line"
    by (simp add: str_def)
  ultimately have "while_loop ?line 0 False = while_loop ?line (length ws + 2) True"
    by (simp add: while_loop.simps [of ?line 0])
  also have "\<dots> = while_loop rest 0 True"
    using while_loop_after [of "ws @ str ''/*''" rest True] by (simp add: str_def)
  finally show ?thesis .
qed

lemma code_before_opener:
  assumes "py_find seg (str ''/*'') 0 = None" and "py_strip seg \<noteq> []"
  shows "while_loop (seg @ str ''/*'' @ rest) 0 False = (True, False)"
proof -
  let ?line = "seg @ str ''/*'' @ rest"
  from assms(1) have "py_find ?line (str ''/*'') 0 = Some (length seg)"
    using py_find_first [of seg 47 42 rest] by (simp add: str_def)
  moreover have "py_strip (py_slice ?line 0 (length seg)) \<noteq> []"
    using assms(2) by (simp add: py_slice_def)
  ultimately have "loop_body ?line 0 False = Return (True, False)"
    by (simp add: loop_body_def)
  moreover have "0 < length ?line"
    by (simp add: str_def)
  ultimately show ?thesis
    by (simp add: while_loop.simps [of ?line 0])
qed

lemma skip_comments:
  assumes "\<forall>p\<in>set ps. (\<forall>x\<in>set (fst p). is_space x) \<and> py_find (snd p) (str ''*/'') 0 = None"
  shows "while_loop (comments ps @ rest) 0 False = while_loop rest 0 False"
  using assms
proof (induction ps)
  case Nil
  show ?case by simp
next
  case (Cons p ps)
  obtain ws c where p: "p = (ws, c)"
    by (cases p)
  from Cons.prems p have ws: "\<forall>x\<in>set ws. is_space x" and c: "py_find c (str ''*/'') 0 = None"
    by simp_all
  have "while_loop (comments (p # ps) @ rest) 0 False
      = while_loop (ws @ str ''/*'' @ c @ str ''*/'' @ comments ps @ rest) 0 False"
    by (simp add: p)
  also have "\<dots> = while_loop (c @ str ''*/'' @ comments ps @ rest) 0 True"
    by (rule skip_opener [OF ws])
  also have "\<dots> = while_loop (comments ps @ rest) 0 False"
    by (rule skip_to_close [OF c])
  also have "\<dots> = while_loop rest 0 False"
    using Cons.IH Cons.prems by simp
  finally show ?case .
qed

lemma blank_rest:
  assumes "\<forall>x\<in>set ws. is_space x"
  shows "while_loop ws idx False = (False, False)"
proof (induction "length ws - idx" arbitrary: idx)
  case 0
  then show ?case by (simp add: while_loop.simps)
next
  case (Suc n)
  then have lt: "idx < length ws"
    by simp
  from assms have "47 \<notin> set (drop idx ws)"
    by (auto dest: is_space_not_slash in_set_dropD)
  then have "py_find ws (str ''/*'') idx = None"
    using lt by (simp add: py_find_def str_def find_in_absent)
  moreover have "py_strip (py_slice_from ws idx) = []"
    using assms by (auto simp: py_strip_empty_iff py_slice_from_def dest: in_set_dropD)
  ultimately have "loop_body ws idx False = Continue (idx + 1) False"
    by (simp add: loop_body_def)
  with lt have "while_loop ws idx False = while_loop ws (idx + 1) False"
    by (simp add: while_loop.simps [of ws idx])
  also have "\<dots> = (False, False)"
    using Suc.hyps(1) [of "idx + 1"] Suc.hyps(2) by simp
  finally show ?case .
qed

lemma unclosed_comment:
  assumes "py_find c (str ''*/'') 0 = None"
  shows "while_loop c 0 True = (False, True)"
proof (cases "0 < length c")
  case True
  with assms show ?thesis
    by (simp add: while_loop.simps loop_body_def)
next
  case False
  then show ?thesis
    by (simp add: while_loop.simps)
qed

lemma code_at_end:
  assumes "py_find tail (str ''/*'') 0 = None"
    and "py_strip tail \<noteq> []" and "py_strip tail \<noteq> backslash" and "py_strip tail \<noteq> str ''//''"
  shows "while_loop tail 0 False = (True, False)"
proof -
  from assms(2) have "0 < length tail"
    by (auto simp: py_strip_empty_iff)
  moreover from assms have "loop_body tail 0 False = Return (True, False)"
    by (simp add: loop_body_def py_slice_from_def)
  ultimately show ?thesis
    by (simp add: while_loop.simps [of tail 0])
qed

text \<open>
  C4: the markers of a line are resolved from left to right, and what a comment holds
  never counts as code. The line of the example has code; the same line with \<open>test\<close>
  inside a comment has none. In general, take a line that begins with text \<open>c0\<close> holding
  no closer, then a closer, then any number of comments, each after white space only
  and each holding any text without a closer. The result is that of scanning what
  follows them from outside a comment: no code and the comment closed when only white
  space follows; no code and the comment open when white space and an opener that is
  never closed follow; code when text that is not white space stands before a further
  opener, or at the end of the line (a lone backslash and a lone \<open>//\<close> apart).
\<close>

theorem comments_resolved_left_to_right:
  assumes "py_find c0 (str ''*/'') 0 = None"
    and "\<forall>p\<in>set ps. (\<forall>x\<in>set (fst p). is_space x) \<and> py_find (snd p) (str ''*/'') 0 = None"
  shows "look_for_code_in_line (str ''*/ test /* */ /* */'') = (True, False)
   \<and> look_for_code_in_line (str ''*/ /* test */ /* */'') = (False, False)
   \<and> look_for_code_in_line (c0 @ str ''*/'' @ comments ps @ rest) = while_loop rest 0 False
   \<and> ((\<forall>x\<in>set rest. is_space x)
        \<longrightarrow> look_for_code_in_line (c0 @ str ''*/'' @ comments ps @ rest) = (False, False))
   \<and> ((\<forall>x\<in>set ws. is_space x) \<and> py_find c (str ''*/'') 0 = None
        \<longrightarrow> look_for_code_in_line (c0 @ str ''*/'' @ comments ps @ ws @ str ''/*'' @ c)
            = (False, True))
   \<and> (py_find seg (str ''/*'') 0 = None \<and> py_strip seg \<noteq> []
        \<longrightarrow> look_for_code_in_line (c0 @ str ''*/'' @ comments ps @ seg @ str ''/*'' @ rest)
            = (True, False))
   \<and> (py_find seg (str ''/*'') 0 = None \<and> py_strip seg \<notin> {[], backslash, str ''//''}
        \<longrightarrow> look_for_code_in_line (c0 @ str ''*/'' @ comments ps @ seg) = (True, False))"
proof -
  have start: "look_for_code_in_line (c0 @ str ''*/'' @ comments ps @ t) = while_loop t 0 False"
    for t
    using skip_to_close [OF assms(1), of "comments ps @ t"] skip_comments [OF assms(2), of t]
    by (simp add: look_for_code_in_line_def)
  show ?thesis
  proof (intro conjI impI)
    show "look_for_code_in_line (str ''*/ test /* */ /* */'') = (True, False)"
      by (simp add: classifier_eval)
  next
    show "look_for_code_in_line (str ''*/ /* test */ /* */'') = (False, False)"
      by (simp add: classifier_eval)
  next
    show "look_for_code_in_line (c0 @ str ''*/'' @ comments ps @ rest) = while_loop rest 0 False"
      by (rule start)
  next
    assume "\<forall>x\<in>set rest. is_space x"
    then show "look_for_code_in_line (c0 @ str ''*/'' @ comments ps @ rest) = (False, False)"
      by (simp add: start blank_rest)
  next
    assume "(\<forall>x\<in>set ws. is_space x) \<and> py_find c (str ''*/'') 0 = None"
    then show "look_for_code_in_line (c0 @ str ''*/'' @ comments ps @ ws @ str ''/*'' @ c)
        = (False, True)"
      using skip_opener [of ws c] unclosed_comment [of c] by (simp add: start)
  next
    assume "py_find seg (str ''/*'') 0 = None \<and> py_strip seg \<noteq> []"
    then show "look_for_code_in_line (c0 @ str ''*/'' @ comments ps @ seg @ str ''/*'' @ rest)
        = (True, False)"
      by (simp add: start code_before_opener)
  next
    assume "py_find seg (str ''/*'') 0 = None \<and> py_strip seg \<notin> {[], backslash, str ''//''}"
    then show "look_for_code_in_line (c0 @ str ''*/'' @ comments ps @ seg) = (True, False)"
      by (simp add: start code_at_end)
  qed
qed

theorem comments_resolved_left_to_right_witness:
  "py_find (str ''a'') (str ''*/'') 0 = None \<and> is_space 32
   \<and> py_find (str '' test '') (str ''*/'') 0 = None
   \<and> look_for_code_in_line (str ''a*/ /* test */ /* */ '') = (False, False)
   \<and> look_for_code_in_line (str ''a*/ /* test */ /* */ /*b'') = (False, True)
   \<and> look_for_code_in_line (str ''a*/ /* test */ /* */ x /* '') = (True, False)
   \<and> look_for_code_in_line (str ''a*/ /* test */ /* */ x '') = (True, False)"
proof -
  let ?ps = "[(str '' '', str '' test ''), (str '' '', str '' '')]"
  have h1: "py_find (str ''a'') (str ''*/'') 0 = None"
    by (simp add: py_find_def str_def)
  have sp: "is_space 32"
    by (simp add: is_space_def)
  have t: "py_find (str '' test '') (str ''*/'') 0 = None"
    by (simp add: py_find_def str_def)
  have h2: "\<forall>p\<in>set ?ps. (\<forall>x\<in>set (fst p). is_space x) \<and> py_find (snd p) (str ''*/'') 0 = None"
    by (simp add: py_find_def str_def is_space_def)
  have h3: "\<forall>x\<in>set (str '' ''). is_space x"
    by (simp add: str_def is_space_def)
  have h4: "py_find (str ''b'') (str ''*/'') 0 = None"
    by (simp add: py_find_def str_def)
  have h5: "py_find (str '' x '') (str ''/*'') 0 = None"
    by (simp add: py_find_def str_def)
  have h7: "py_strip (str '' x '') \<noteq> [] \<and> py_strip (str '' x '') \<notin> {[], backslash, str ''//''}"
    by (simp add: py_strip_def py_lstrip_def py_rstrip_def str_def is_space_def backslash_def)
  have e1: "str ''a'' @ str ''*/'' @ comments ?ps @ str '' '' = str ''a*/ /* test */ /* */ ''"
    by (simp add: str_def)
  have e2: "str ''a'' @ str ''*/'' @ comments ?ps @ str '' '' @ str ''/*'' @ str ''b''
      = str ''a*/ /* test */ /* */ /*b''"
    by (simp add: str_def)
  have e3: "str ''a'' @ str ''*/'' @ comments ?ps @ str '' x '' @ str ''/*'' @ str '' ''
      = str ''a*/ /* test */ /* */ x /* ''"
    by (simp add: str_def)
  have e4: "str ''a'' @ str ''*/'' @ comments ?ps @ str '' x '' = str ''a*/ /* test */ /* */ x ''"
    by (simp add: str_def)
  from comments_resolved_left_to_right [OF h1 h2,
      where rest = "str '' ''" and ws = "str '' ''" and c = "str ''b''" and seg = "str '' x ''"]
    h3 h4 h5 h7
  have "look_for_code_in_line (str ''a'' @ str ''*/'' @ comments ?ps @ str '' '') = (False, False)
    \<and> look_for_code_in_line (str ''a'' @ str ''*/'' @ comments ?ps @ str '' '' @ str ''/*'' @ str ''b'')
        = (False, True)
    \<and> look_for_code_in_line (str ''a'' @ str ''*/'' @ comments ?ps @ str '' x '' @ str ''/*'' @ str '' '')
        = (True, False)
    \<and> look_for_code_in_line (str ''a'' @ str ''*/'' @ comments ?ps @ str '' x '') = (True, False)"
    by blast
  then show ?thesis
    using h1 sp t by (simp only: e1 e2 e3 e4)
qed

text \<open>
  For a line that starts with an opener not followed at once by \<open>/\<close>, starting the scan
  inside a comment at the first character gives what the scan gives when it starts
  outside a comment, finds the opener and goes on behind it.
\<close>

lemma start_inside_agrees:
  assumes "startswith line (str ''/*'')" and "\<not> startswith line (str ''/*/'')"
  shows "look_for_code_in_line line = while_loop line 0 False"
proof -
  from assms(1) have "take 2 line = [47, 42]"
    by (simp add: startswith_def str_def numeral_2_eq_2)
  then have "line = [47, 42] @ drop 2 line"
    by (metis append_take_drop_id)
  then obtain rest where line: "line = [47, 42] @ rest"
    by blast
  from assms(2) line have rest: "take 1 rest \<noteq> [47]"
    by (cases rest) (simp_all add: startswith_def str_def)
  have outside: "while_loop line 0 False = while_loop rest 0 True"
    using skip_opener [of "[]" rest] by (simp add: line str_def)
  from rest have "find_in [42, 47] (47 # 42 # rest) = map_option (\<lambda>i. i + 2) (find_in [42, 47] rest)"
    by (cases rest) (simp_all add: option.map_comp comp_def)
  then have find: "py_find line (str ''*/'') 0 = map_option (\<lambda>i. i + 2) (py_find rest (str ''*/'') 0)"
    by (simp add: py_find_def line str_def option.map_comp comp_def)
  show ?thesis
  proof (cases "py_find rest (str ''*/'') 0")
    case None
    with find have "py_find line (str ''*/'') 0 = None"
      by simp
    then have "look_for_code_in_line line = (False, True)"
      by (simp add: look_for_code_in_line_def while_loop.simps [of line 0] loop_body_def)
    moreover from None have "while_loop rest 0 True = (False, True)"
      by (simp add: while_loop.simps [of rest 0] loop_body_def)
    ultimately show ?thesis
      by (simp add: outside)
  next
    case (Some p)
    with find have "py_find line (str ''*/'') 0 = Some (p + 2)"
      by simp
    moreover have "0 < length line"
      by (simp add: line)
    ultimately have "look_for_code_in_line line = while_loop line (p + 2 + 2) False"
      by (simp add: look_for_code_in_line_def while_loop.simps [of line 0] loop_body_def)
    also have "\<dots> = while_loop rest (p + 2) False"
      using while_loop_shift [of "[47, 42]" rest "p + 2" False] by (simp add: line add.commute)
    finally have inside: "look_for_code_in_line line = while_loop rest (p + 2) False" .
    from py_find_bound [OF Some] have "0 < length rest"
      by (auto simp: str_def)
    with Some have "while_loop rest 0 True = while_loop rest (p + 2) False"
      by (simp add: while_loop.simps [of rest 0] loop_body_def)
    with inside outside show ?thesis
      by simp
  qed
qed

text \<open>
  C1 at the line \<open>/*/ x\<close>, which the file counter passes to the classifier while it is
  not inside a block comment. The scan starts inside a comment at the first character
  and not behind the opener, so the \<open>/\<close> of the opener is read as the end of a closer:
  the line is reported as code with the comment closed, and the file of the two lines
  \<open>/*/ x\<close> and \<open>y\<close>, a comment that is never closed, has the count 2. The loop started
  outside a comment, as the caller is, reports no code and the comment open, and so
  does the classifier when the same opener stands later in the line. The line \<open>test\<close>
  from outside a comment is code with the comment closed, in the loop and in the file
  counter.
\<close>

theorem opener_read_as_closer:
  "look_for_code_in_line (str ''/*/ x'') = (True, False)
   \<and> while_loop (str ''/*/ x'') 0 False = (False, True)
   \<and> look_for_code_in_line (str ''*/ /*/ x'') = (False, True)
   \<and> count_real_lines (Opens [Line (str ''/*/ x'' @ [10]), Line (str ''y'' @ [10])]) = Inr 2
   \<and> while_loop (str ''test'') 0 False = (True, False)
   \<and> for_body (str ''test'' @ [10]) \<lparr>real = 0, in_block_comment = False\<rparr>
       = \<lparr>real = 1, in_block_comment = False\<rparr>"
  by (simp add: counter_eval classifier_eval)

section \<open>The file counter\<close>

lemma set_py_rstrip_nl: "set (py_rstrip_nl s) \<subseteq> set s"
  by (auto simp: py_rstrip_nl_def dest: set_dropWhileD)

lemma is_space_slash: "\<not> is_space 47"
  by (simp add: is_space_def)

lemma startswith_comment_not_blank:
  assumes "startswith (py_lstrip line) (str ''//'')"
  shows "py_strip line \<noteq> []"
proof -
  from assms have "take 2 (dropWhile is_space line) = [47, 47]"
    by (simp add: startswith_def py_lstrip_def str_def numeral_2_eq_2)
  then have "47 \<in> set (take 2 (dropWhile is_space line))"
    by simp
  then have "47 \<in> set line"
    by (auto dest: in_set_takeD set_dropWhileD)
  with is_space_slash show ?thesis
    by (auto simp: py_strip_empty_iff)
qed

lemma classify_real:
  "real (classify stripped s) = real s \<or> real (classify stripped s) = real s + 1"
  by (simp add: classify_def split: prod.splits)

lemma for_body_real:
  "real (for_body raw s) = real s \<or> real (for_body raw s) = real s + 1"
  using classify_real [of "py_lstrip (py_rstrip_nl raw)" s]
  by (simp add: for_body_def Let_def)

lemma for_loop_lines: "for_loop (map Line ls) s = (fold for_body ls s, None)"
  by (induction ls arbitrary: s) simp_all

lemma for_loop_raises:
  "for_loop (map Line ls @ Raises e # rest) s = (fold for_body ls s, Some e)"
  by (induction ls arbitrary: s) simp_all

lemma fold_for_body_real:
  "real s \<le> real (fold for_body ls s) \<and> real (fold for_body ls s) \<le> real s + int (length ls)"
proof (induction ls arbitrary: s)
  case Nil
  show ?case by simp
next
  case (Cons raw ls)
  from Cons.IH [of "for_body raw s"] for_body_real [of raw s] show ?case
    by auto
qed

lemma count_real_lines_lines:
  "count_real_lines (Opens (map Line ls))
     = Inr (real (fold for_body ls \<lparr>real = 0, in_block_comment = False\<rparr>))"
  by (simp add: count_real_lines_def try_block_def for_loop_lines)

text \<open>
  C3, as the code has it. An error derived from \<open>Exception\<close> never leaves
  \<open>count_real_lines\<close>. When \<open>open\<close> raises it the result is 0; when the iteration raises
  it after some lines were read, the result is the number of real lines among those
  lines, as if the file had ended there.
\<close>

theorem read_error_keeps_lines_counted:
  "count_real_lines (OpenRaises OSError) = Inr 0
   \<and> count_real_lines (Opens (map Line ls @ Raises OSError # rest))
       = Inr (real (fold for_body ls \<lparr>real = 0, in_block_comment = False\<rparr>))
   \<and> count_real_lines (Opens (map Line ls @ Raises OSError # rest))
       = count_real_lines (Opens (map Line ls))"
  by (simp add: count_real_lines_def try_block_def for_loop_lines for_loop_raises)

text \<open>
  C3, as the specification states it, fails: a file that gives the line \<open>int x;\<close> and
  then raises an I/O error has the count 1, not 0.
\<close>

theorem read_error_after_code_line_counterexample:
  "count_real_lines (Opens [Line (str ''int x;'' @ [10]), Raises OSError]) = Inr 1
   \<and> count_real_lines (Opens [Line (str ''int x;'' @ [10]), Raises OSError]) \<noteq> Inr 0"
  by (simp add: counter_eval classifier_eval)

text \<open>
  C5: over the lines of a file the loop is the left fold of \<open>for_body\<close>, and running it
  over a prefix and then over the suffix from the variables the prefix left gives the
  count and the block-comment state of one run over the whole sequence.
\<close>

theorem counter_is_left_fold:
  "for_loop (map Line ls) s = (fold for_body ls s, None)
   \<and> for_loop (map Line (xs @ ys)) s = for_loop (map Line ys) (fst (for_loop (map Line xs) s))
   \<and> count_real_lines (Opens (map Line (xs @ ys)))
       = Inr (real (fold for_body ys (fold for_body xs \<lparr>real = 0, in_block_comment = False\<rparr>)))"
  by (simp add: for_loop_lines count_real_lines_lines flip: map_append)

text \<open>
  C6: a line that starts with \<open>//\<close> after its leading white space leaves the count and
  the block-comment state as they were, whatever they were.
\<close>

theorem line_comment_is_skipped:
  assumes "startswith (py_lstrip (py_rstrip_nl raw)) (str ''//'')"
  shows "for_body raw s = s \<and> for_loop (Line raw # rs) s = for_loop rs s"
  using assms startswith_comment_not_blank [OF assms]
  by (simp add: for_body_def Let_def)

theorem line_comment_is_skipped_witness:
  "startswith (py_lstrip (py_rstrip_nl (str ''  // */ x'' @ [10]))) (str ''//'')
   \<and> for_body (str ''  // */ x'' @ [10]) \<lparr>real = 3, in_block_comment = True\<rparr>
       = \<lparr>real = 3, in_block_comment = True\<rparr>
   \<and> for_loop [Line (str ''  // */ x'' @ [10])] \<lparr>real = 3, in_block_comment = True\<rparr>
       = (\<lparr>real = 3, in_block_comment = True\<rparr>, None)"
proof -
  have h: "startswith (py_lstrip (py_rstrip_nl (str ''  // */ x'' @ [10]))) (str ''//'')"
    by (simp add: startswith_def py_lstrip_def py_rstrip_nl_def str_def is_space_def)
  from h line_comment_is_skipped [OF h, of "\<lparr>real = 3, in_block_comment = True\<rparr>" "[]"]
  show ?thesis by simp
qed

text \<open>
  C7: a line of white space only leaves the count and the block-comment state as they
  were.
\<close>

theorem blank_line_is_skipped:
  assumes "\<forall>c\<in>set raw. is_space c"
  shows "for_body raw s = s \<and> for_loop (Line raw # rs) s = for_loop rs s"
proof -
  from assms set_py_rstrip_nl [of raw] have "py_strip (py_rstrip_nl raw) = []"
    by (auto simp: py_strip_empty_iff)
  then show ?thesis by (simp add: for_body_def)
qed

theorem blank_line_is_skipped_witness:
  "is_space 32 \<and> is_space 9 \<and> is_space 10
   \<and> for_body [32, 9, 32, 10] \<lparr>real = 3, in_block_comment = True\<rparr>
       = \<lparr>real = 3, in_block_comment = True\<rparr>
   \<and> for_loop [Line [32, 9, 32, 10]] \<lparr>real = 3, in_block_comment = False\<rparr>
       = (\<lparr>real = 3, in_block_comment = False\<rparr>, None)"
proof -
  have h: "\<forall>c\<in>set [32, 9, 32, 10]. is_space c"
    by (simp add: is_space_def)
  from h blank_line_is_skipped [OF h, of "\<lparr>real = 3, in_block_comment = True\<rparr>" "[]"]
    blank_line_is_skipped [OF h, of "\<lparr>real = 3, in_block_comment = False\<rparr>" "[]"]
  show ?thesis by simp
qed

text \<open>
  C8: each line leaves the count as it is or adds one to it, and the count of a file
  lies between 0 and the number of its lines.
\<close>

theorem count_at_most_number_of_lines:
  "(real (for_body raw s) = real s \<or> real (for_body raw s) = real s + 1)
   \<and> (\<exists>n. count_real_lines (Opens (map Line ls)) = Inr n \<and> 0 \<le> n \<and> n \<le> int (length ls))"
  using for_body_real [of raw s]
    fold_for_body_real [of "\<lparr>real = 0, in_block_comment = False\<rparr>" ls]
  by (simp add: count_real_lines_lines)

end
